theory Spec2Isabelle
  imports Complex_Main
begin

section \<open>The stage identifiers and the role flags\<close>

text \<open>
  The stages of \<^verbatim>\<open>operations.cc\<close>, by the names the source pushes onto a queue list
  (the spec writes \<^verbatim>\<open>COPY_D2H\<close> and \<^verbatim>\<open>COPY_H2D\<close> for \<^verbatim>\<open>COPYD2H\<close> and \<^verbatim>\<open>COPYH2D\<close>).
\<close>

datatype QueueType =
    COORDINATE_REDUCE
  | REDUCE
  | COPYD2H
  | PCIE_REDUCE
  | COORDINATE_PUSH
  | PUSH
  | PULL
  | COPYH2D
  | COORDINATE_BROADCAST
  | BROADCAST

text \<open>
  What the functions read from \<^verbatim>\<open>BytePSGlobal\<close>: the four role flags
  (\<^verbatim>\<open>IsSignalRoot\<close> is \<^verbatim>\<open>BytePSGlobal::GetNccl()->IsSignalRoot()\<close>), the partition bound,
  the worker id, and the two calls of the shared-memory object
  (\<^verbatim>\<open>GetSharedMemoryObj()->openSharedMemory(key, size)\<close> and \<^verbatim>\<open>openPcieSharedMemory\<close>),
  whose results the functions only store; they are functions of the key and the size,
  the same key and size naming the same region. A \<^verbatim>\<open>void*\<close> is a \<^typ>\<open>nat option\<close>,
  \<open>None\<close> the null pointer.
\<close>

record BytePSGlobal =
  IsDistributed :: bool
  IsRootDevice :: bool
  IsCrossPcieSwitch :: bool
  IsSignalRoot :: bool
  GetPartitionBound :: int
  GetWorkerID :: int
  openSharedMemory :: "nat \<Rightarrow> int \<Rightarrow> nat option"
  openPcieSharedMemory :: "nat \<Rightarrow> int \<Rightarrow> nat option list"

text \<open>
  \<^verbatim>\<open>CPU_DEVICE_ID\<close> is a macro of \<^verbatim>\<open>common.h\<close>, which is not among the sources. The
  functions only compare a device with it; the theorems below keep it as a name and
  only their instances at a concrete device unfold the value.
\<close>

definition CPU_DEVICE_ID :: int where
  "CPU_DEVICE_ID = - 1"

section \<open>The itinerary builders\<close>

text \<open>
  \<^verbatim>\<open>GetPushQueueList\<close> and \<^verbatim>\<open>GetPullQueueList\<close>: each \<^verbatim>\<open>push_back\<close> of the source
  is an append to the list built so far, in the order of the source.
\<close>

definition GetPushQueueList :: "BytePSGlobal \<Rightarrow> int \<Rightarrow> QueueType list" where
  "GetPushQueueList g device =
    (let queue_list = [] in
     if device \<noteq> CPU_DEVICE_ID then
       let queue_list =
             (if IsSignalRoot g then queue_list @ [REDUCE]
              else (queue_list @ [COORDINATE_REDUCE]) @ [REDUCE]);
           queue_list =
             (if IsDistributed g \<or> IsCrossPcieSwitch g then queue_list @ [COPYD2H]
              else queue_list);
           queue_list =
             (if IsCrossPcieSwitch g then queue_list @ [PCIE_REDUCE] else queue_list);
           queue_list =
             (if IsDistributed g then
                (if IsRootDevice g then queue_list @ [PUSH]
                 else queue_list @ [COORDINATE_PUSH])
              else queue_list)
       in queue_list
     else queue_list)"

definition GetPullQueueList :: "BytePSGlobal \<Rightarrow> int \<Rightarrow> QueueType list" where
  "GetPullQueueList g device =
    (let queue_list = [] in
     if device \<noteq> CPU_DEVICE_ID then
       let queue_list =
             (if IsDistributed g then
                (if IsRootDevice g then queue_list @ [PULL] else queue_list)
              else queue_list);
           queue_list =
             (if IsDistributed g \<or> IsCrossPcieSwitch g then queue_list @ [COPYH2D]
              else queue_list);
           queue_list =
             (if IsSignalRoot g then queue_list @ [BROADCAST]
              else (queue_list @ [COORDINATE_BROADCAST]) @ [BROADCAST])
       in queue_list
     else queue_list)"

section \<open>Machine integers\<close>

text \<open>
  The source computes sizes in C++ integers of several widths: \<^verbatim>\<open>auto accumulated = 0\<close>
  and \<^verbatim>\<open>int i\<close>, \<^verbatim>\<open>int len\<close> are 32-bit signed, \<^verbatim>\<open>unsigned int accumulated\<close> and the cast
  \<^verbatim>\<open>(unsigned int)\<close> are 32-bit unsigned, \<^verbatim>\<open>size_t\<close> is 64-bit unsigned (the LP64 model
  of the Linux targets of this repository). The model keeps every number as an \<^typ>\<open>int\<close> and
  writes out the reduction each C++ type applies when a value is stored in it.

  \<^verbatim>\<open>operations.cc\<close> does not itself fix the types of what it takes from its headers
  (\<^verbatim>\<open>common.h\<close>, \<^verbatim>\<open>global.h\<close>, not among the sources). The model takes them as the
  headers of the repository declare them: \<^verbatim>\<open>Tensor::size()\<close> returns \<^verbatim>\<open>int64_t\<close>,
  \<^verbatim>\<open>GetPartitionBound()\<close> returns \<^verbatim>\<open>uint32_t\<close>, the fields \<^verbatim>\<open>offset\<close>, \<^verbatim>\<open>len\<close> and
  \<^verbatim>\<open>total_partnum\<close> of a \<^verbatim>\<open>TensorTableEntry\<close> are \<^verbatim>\<open>unsigned int\<close>, and
  \<^verbatim>\<open>BPSContext::buff_len\<close> is a \<^verbatim>\<open>size_t\<close>. Where every value stays below \<open>2^31\<close> the
  functions compute the same whatever these widths are, as long as they are 32 bits or
  more.
\<close>

definition wrap_int32 :: "int \<Rightarrow> int" where
  "wrap_int32 x = (x + 2 ^ 31) mod 2 ^ 32 - 2 ^ 31"

definition wrap_uint32 :: "int \<Rightarrow> int" where
  "wrap_uint32 x = x mod 2 ^ 32"

definition wrap_int64 :: "int \<Rightarrow> int" where
  "wrap_int64 x = (x + 2 ^ 63) mod 2 ^ 64 - 2 ^ 63"

definition wrap_size_t :: "int \<Rightarrow> int" where
  "wrap_size_t x = x mod 2 ^ 64"

text \<open>
  \<^verbatim>\<open>std::to_string\<close> of an \<^verbatim>\<open>int\<close>, which names the children: the decimal digits, most
  significant first, after a minus sign for a negative number.
\<close>

definition digit_char :: "nat \<Rightarrow> char" where
  "digit_char d = ''0123456789'' ! d"

fun decimal_digits :: "nat \<Rightarrow> string" where
  "decimal_digits n =
     (if 10 \<le> n then decimal_digits (n div 10) else []) @ [digit_char (n mod 10)]"

declare decimal_digits.simps [simp del]

definition to_string :: "int \<Rightarrow> string" where
  "to_string i =
     (if i < 0 then CHR ''-'' # decimal_digits (nat (- i)) else decimal_digits (nat i))"

section \<open>The data model\<close>

text \<open>
  \<^verbatim>\<open>Status\<close>: the source builds only \<^verbatim>\<open>Status::OK()\<close>; \<open>NotOK\<close> stands for every
  other status a callback could be given. A \<open>failure\<close> is how a call ends other than by
  returning: \<open>InvariantViolation\<close> is a failed \<^verbatim>\<open>BPS_CHECK\<close> (fatal, the spec's name for
  it), the other three are the undefined behaviours the source can reach (a null
  \<^verbatim>\<open>shared_ptr\<close> dereferenced, a division by zero, a vector read past its end).
\<close>

datatype Status = OK | NotOK

datatype failure = InvariantViolation | NullDereference | DivisionByZero | OutOfRange

text \<open>The fields of \<^verbatim>\<open>BPSContext\<close> that the source reads or writes.\<close>

record BPSContext =
  initialized :: bool
  key_list :: "nat list"
  buff_len :: int
  cpubuff :: "nat option"
  pcie_cpubuff :: "nat option list"
  reuse_buff :: bool

text \<open>A \<^verbatim>\<open>Tensor\<close> is used through \<^verbatim>\<open>size()\<close> only, its size in bytes.\<close>

record Tensor =
  tensor_size :: int

text \<open>
  \<^verbatim>\<open>TensorTableEntry\<close>, with the fields the source assigns. Names that Isabelle
  reserves carry a prime (\<open>context'\<close>, \<open>output'\<close>). \<open>key\<close> is \<open>None\<close> until a key is
  assigned. \<open>context'\<close> is the pointer \<^verbatim>\<open>&context\<close>, held as the record it points to
  (\<^verbatim>\<open>EnqueueTensor\<close> does not change it). A \<^verbatim>\<open>shared_ptr\<close> is an option, \<open>None\<close> when
  it is null: the ready event and the callback are opaque identifiers, and
  \<open>counter_ptr\<close> holds the value of the atomic counter it points to.
\<close>

record TensorTableEntry =
  tensor_name :: string
  key :: "nat option"
  context' :: BPSContext
  tensor :: "Tensor option"
  output' :: "Tensor option"
  priority :: int
  version :: int
  ready_event :: "nat option"
  device :: int
  callback :: nat
  cpubuff :: "nat option"
  pcie_cpubuff :: "nat option list"
  queue_list :: "QueueType list"
  offset :: int
  len :: int
  counter_ptr :: "int option"
  total_partnum :: int

text \<open>
  What the functions do to the rest of the process: the scheduled queue of every
  stage (\<^verbatim>\<open>addTask\<close> appends), the log of the callbacks invoked, with the status passed,
  and the log of the calls to the parameter server: a blocking push
  (\<^verbatim>\<open>Wait(ZPush(...))\<close>) of \<open>len\<close> bytes at \<open>data + offset\<close> under a key with a command,
  and the barrier of the worker group.
\<close>

datatype RequestType = kDefaultPushPull

datatype command = GetCommandType RequestType int

datatype ps_event =
    ZPush (push_key: nat) (push_data: "nat option") (push_offset: int) (push_len: int)
      (push_cmd: command)
  | Barrier

record World =
  queues :: "QueueType \<Rightarrow> TensorTableEntry list"
  callbacks :: "(nat \<times> Status) list"
  ps_log :: "ps_event list"

definition addTask :: "QueueType \<Rightarrow> TensorTableEntry \<Rightarrow> World \<Rightarrow> World" where
  "addTask q task w = w\<lparr>queues := (queues w)(q := queues w q @ [task])\<rparr>"

definition invoke :: "nat \<Rightarrow> Status \<Rightarrow> World \<Rightarrow> World" where
  "invoke cb st w = w\<lparr>callbacks := callbacks w @ [(cb, st)]\<rparr>"

definition ps_call :: "ps_event \<Rightarrow> World \<Rightarrow> World" where
  "ps_call ev w = w\<lparr>ps_log := ps_log w @ [ev]\<rparr>"

section \<open>PartitionTensor\<close>

text \<open>
  The child that one turn of the loop of \<^verbatim>\<open>PartitionTensor\<close> builds, from the parent,
  the size, the bound and the values of \<^verbatim>\<open>accumulated\<close> and \<^verbatim>\<open>i\<close> at that turn. The
  source leaves \<open>key\<close> unassigned. \<^verbatim>\<open>size - accumulated\<close> is an \<^verbatim>\<open>int64_t\<close>, and so is
  the conditional expression, stored in the \<^verbatim>\<open>unsigned int\<close> field \<open>len\<close>.
\<close>

definition new_partition ::
  "TensorTableEntry \<Rightarrow> int \<Rightarrow> int \<Rightarrow> int \<Rightarrow> int \<Rightarrow> TensorTableEntry" where
  "new_partition entry size' bound accumulated i =
     \<lparr>tensor_name = tensor_name entry @ ''_'' @ to_string i,
      key = None,
      context' = context' entry,
      tensor = tensor entry,
      output' = output' entry,
      priority = priority entry,
      version = version entry,
      ready_event = ready_event entry,
      device = device entry,
      callback = callback entry,
      cpubuff = TensorTableEntry.cpubuff entry,
      pcie_cpubuff = TensorTableEntry.pcie_cpubuff entry,
      queue_list = queue_list entry,
      offset = wrap_uint32 accumulated,
      len = wrap_uint32
        (if wrap_int64 (size' - accumulated) > bound then bound
         else wrap_int64 (size' - accumulated)),
      counter_ptr = counter_ptr entry,
      total_partnum = total_partnum entry\<rparr>"

text \<open>
  The loop \<^verbatim>\<open>while (accumulated < size)\<close>. \<^verbatim>\<open>accumulated\<close> and \<^verbatim>\<open>i\<close> are \<^verbatim>\<open>int\<close>, so
  \<^verbatim>\<open>accumulated += e->len\<close> and \<^verbatim>\<open>++i\<close> store a 32-bit signed value; the comparison
  with the \<^verbatim>\<open>int64_t\<close> size is one of values. The loop need not end (\<open>None\<close>).
\<close>

partial_function (option) PartitionTensor_loop ::
  "TensorTableEntry \<Rightarrow> int \<Rightarrow> int \<Rightarrow> int \<Rightarrow> int \<Rightarrow> TensorTableEntry list
     \<Rightarrow> TensorTableEntry list option" where
  "PartitionTensor_loop entry size' bound accumulated i partitions =
     (if accumulated < size' then
        let e = new_partition entry size' bound accumulated i
        in PartitionTensor_loop entry size' bound
             (wrap_int32 (accumulated + len e)) (wrap_int32 (i + 1)) (partitions @ [e])
      else Some partitions)"

declare PartitionTensor_loop.simps [code]

text \<open>\<^verbatim>\<open>entry->tensor ? entry->tensor->size() : entry->output->size()\<close>.\<close>

definition entry_size :: "TensorTableEntry \<Rightarrow> failure + int" where
  "entry_size entry =
     (case tensor entry of
        Some t \<Rightarrow> Inr (tensor_size t)
      | None \<Rightarrow> (case output' entry of
                   Some t \<Rightarrow> Inr (tensor_size t)
                 | None \<Rightarrow> Inl NullDereference))"

definition PartitionTensor ::
  "BytePSGlobal \<Rightarrow> TensorTableEntry \<Rightarrow> TensorTableEntry list
     \<Rightarrow> (failure + TensorTableEntry list) option" where
  "PartitionTensor g entry partitions =
     (if counter_ptr entry = None then Some (Inl InvariantViolation)
      else case entry_size entry of
          Inl f \<Rightarrow> Some (Inl f)
        | Inr size' \<Rightarrow>
            map_option Inr
              (PartitionTensor_loop entry size' (GetPartitionBound g) 0 0 partitions))"

section \<open>EnqueueTensor\<close>

text \<open>
  The loop \<^verbatim>\<open>for (size_t i = 0; i < partitions.size(); ++i)\<close>: the task is given its
  key, then added to the queue of the head stage; \<^verbatim>\<open>accumulated\<close> is an
  \<^verbatim>\<open>unsigned int\<close>. It returns \<^verbatim>\<open>accumulated\<close>. The loop runs only after the check that
  \<open>key_list\<close> and \<open>partitions\<close> have the same length, so \<^verbatim>\<open>context.key_list[i]\<close> is in
  range.
\<close>

function enqueue_loop ::
  "nat list \<Rightarrow> QueueType \<Rightarrow> TensorTableEntry list \<Rightarrow> nat \<Rightarrow> int \<Rightarrow> World \<Rightarrow> int \<times> World" where
  "enqueue_loop keys q partitions i accumulated w =
     (if i < length partitions then
        let task = (partitions ! i)\<lparr>key := Some (keys ! i)\<rparr>;
            w = addTask q task w
        in enqueue_loop keys q partitions (i + 1) (wrap_uint32 (accumulated + len task)) w
      else (accumulated, w))"
  by pat_completeness auto
termination
  by (relation "measure (\<lambda>(keys, q, partitions, i, accumulated, w). length partitions - i)") auto

declare enqueue_loop.simps [simp del]

text \<open>
  The parent task that \<^verbatim>\<open>EnqueueTensor\<close> builds from its arguments (the arguments that
  share a name with a field carry a prime). The counter is a fresh one holding 0;
  \<open>total_partnum\<close>, an \<^verbatim>\<open>unsigned int\<close>, takes \<^verbatim>\<open>context.key_list.size()\<close>.
\<close>

definition parent_task ::
  "BPSContext \<Rightarrow> Tensor option \<Rightarrow> Tensor option \<Rightarrow> nat option \<Rightarrow> string
     \<Rightarrow> int \<Rightarrow> int \<Rightarrow> int \<Rightarrow> nat \<Rightarrow> QueueType list \<Rightarrow> TensorTableEntry" where
  "parent_task ctx input' out ready_event' name device' priority' version' callback'
      queue_list' =
     \<lparr>tensor_name = name,
      key = None,
      context' = ctx,
      tensor = input',
      output' = out,
      priority = priority',
      version = version',
      ready_event = ready_event',
      device = device',
      callback = callback',
      cpubuff = BPSContext.cpubuff ctx,
      pcie_cpubuff = BPSContext.pcie_cpubuff ctx,
      queue_list = queue_list',
      offset = 0,
      len = 0,
      counter_ptr = Some 0,
      total_partnum = wrap_uint32 (int (length (key_list ctx)))\<rparr>"

text \<open>\<^verbatim>\<open>input && output\<close> with \<^verbatim>\<open>input->size() != output->size()\<close>.\<close>

definition sizes_differ :: "Tensor option \<Rightarrow> Tensor option \<Rightarrow> bool" where
  "sizes_differ input' out =
     (case (input', out) of
        (Some t, Some t') \<Rightarrow> tensor_size t \<noteq> tensor_size t'
      | _ \<Rightarrow> False)"

text \<open>
  \<^verbatim>\<open>EnqueueTensor\<close>. The result is how the call ended (a failure, or the status
  returned) with the queues and the callback log at that point; \<open>None\<close> when the call
  does not return.
\<close>

definition EnqueueTensor ::
  "BytePSGlobal \<Rightarrow> BPSContext \<Rightarrow> Tensor option \<Rightarrow> Tensor option \<Rightarrow> nat option \<Rightarrow> string
     \<Rightarrow> int \<Rightarrow> int \<Rightarrow> int \<Rightarrow> nat \<Rightarrow> QueueType list \<Rightarrow> World
     \<Rightarrow> ((failure + Status) \<times> World) option" where
  "EnqueueTensor g ctx input' out ready_event' name device' priority' version' callback'
      queue_list' w =
     (if sizes_differ input' out then Some (Inl InvariantViolation, w)
      else
        let e = parent_task ctx input' out ready_event' name device' priority' version'
                  callback' queue_list'
        in case PartitionTensor g e [] of
             None \<Rightarrow> None
           | Some (Inl f) \<Rightarrow> Some (Inl f, w)
           | Some (Inr partitions) \<Rightarrow>
               if length (key_list ctx) \<noteq> length partitions
               then Some (Inl InvariantViolation, w)
               else if length (queue_list e) = 0
               then Some (Inr OK, invoke (callback e) OK w)
               else
                 (case enqueue_loop (key_list ctx) (queue_list e ! 0) partitions 0 0 w of
                    (accumulated, w') \<Rightarrow>
                      (case entry_size e of
                         Inl f \<Rightarrow> Some (Inl f, w')
                       | Inr size' \<Rightarrow>
                           if accumulated \<noteq> size' then Some (Inl InvariantViolation, w')
                           else Some (Inr OK, w'))))"

section \<open>InitTensor\<close>

text \<open>
  What one turn of the loop of \<^verbatim>\<open>InitTensor\<close> sends for its partition: on a
  distributed root device, the blocking push when the worker id is 0, then the barrier of
  the worker group. \<open>data\<close> is \<^verbatim>\<open>context.cpubuff\<close>; the push is of the \<open>len\<close> bytes at
  \<^verbatim>\<open>data + accumulated\<close>.
\<close>

definition init_partition ::
  "BytePSGlobal \<Rightarrow> nat \<Rightarrow> nat option \<Rightarrow> int \<Rightarrow> int \<Rightarrow> int \<Rightarrow> World \<Rightarrow> World" where
  "init_partition g key' data accumulated len' dtype w =
     (if IsDistributed g \<and> IsRootDevice g then
        let w = (if GetWorkerID g = 0 then
                   ps_call (ZPush key' data accumulated len'
                     (GetCommandType kDefaultPushPull dtype)) w
                 else w)
        in ps_call Barrier w
      else w)"

text \<open>
  The loop \<^verbatim>\<open>while (accumulated < size)\<close> of \<^verbatim>\<open>InitTensor\<close>. \<^verbatim>\<open>accumulated\<close>, \<^verbatim>\<open>i\<close> and
  \<^verbatim>\<open>size\<close> are \<^verbatim>\<open>size_t\<close>, \<^verbatim>\<open>len\<close> is an \<^verbatim>\<open>int\<close>; \<^verbatim>\<open>accumulated += len\<close> converts \<open>len\<close>
  to \<^verbatim>\<open>size_t\<close>. \<^verbatim>\<open>key_list[i]\<close> past the end of the vector is undefined. The loop
  returns the final \<^verbatim>\<open>accumulated\<close> and \<^verbatim>\<open>i\<close>.
\<close>

partial_function (option) InitTensor_loop ::
  "BytePSGlobal \<Rightarrow> nat list \<Rightarrow> int \<Rightarrow> int \<Rightarrow> int \<Rightarrow> nat option \<Rightarrow> int \<Rightarrow> nat \<Rightarrow> World
     \<Rightarrow> ((failure + int \<times> nat) \<times> World) option" where
  "InitTensor_loop g keys size' bound dtype data accumulated i w =
     (if accumulated < size' then
        if \<not> i < length keys then Some (Inl OutOfRange, w)
        else
          let key' = keys ! i;
              len' = wrap_int32
                (if size' - accumulated > bound then bound else size' - accumulated);
              w = init_partition g key' data accumulated len' dtype w
          in InitTensor_loop g keys size' bound dtype data
               (wrap_size_t (accumulated + len')) (i + 1) w
      else Some (Inr (accumulated, i), w))"

declare InitTensor_loop.simps [code]

text \<open>
  The buffer of the tensor: the caller's, or shared memory opened under the first key.
  \<^verbatim>\<open>back()\<close> of an empty vector is undefined.
\<close>

definition acquire_buffer ::
  "BytePSGlobal \<Rightarrow> BPSContext \<Rightarrow> nat option \<Rightarrow> failure + BPSContext" where
  "acquire_buffer g ctx cpubuff' =
     (if cpubuff' \<noteq> None then
        Inr (ctx\<lparr>BPSContext.cpubuff := cpubuff', reuse_buff := True\<rparr>)
      else if IsCrossPcieSwitch g then
        let bufs = openPcieSharedMemory g (key_list ctx ! 0) (buff_len ctx)
        in if bufs = [] then Inl OutOfRange
           else Inr (ctx\<lparr>BPSContext.pcie_cpubuff := bufs, BPSContext.cpubuff := last bufs,
                         reuse_buff := False\<rparr>)
      else
        Inr (ctx\<lparr>BPSContext.cpubuff := openSharedMemory g (key_list ctx ! 0) (buff_len ctx),
                 reuse_buff := False\<rparr>))"

text \<open>
  \<^verbatim>\<open>InitTensor\<close>. In \<^verbatim>\<open>(unsigned int) (size+bound-1)/bound\<close> the cast applies to the
  sum, a \<^verbatim>\<open>size_t\<close>, and the division is one of 32-bit unsigned values; it is
  undefined for a bound of zero. The result is the failure, or the context as the call
  leaves it, with the log of the pushes and barriers made until then.
\<close>

definition InitTensor ::
  "BytePSGlobal \<Rightarrow> BPSContext \<Rightarrow> string \<Rightarrow> int \<Rightarrow> nat option \<Rightarrow> World
     \<Rightarrow> ((failure + BPSContext) \<times> World) option" where
  "InitTensor g ctx name dtype cpubuff' w =
     (let keys = key_list ctx;
          size' = buff_len ctx;
          bound = GetPartitionBound g
      in if \<not> length keys > 0 then Some (Inl InvariantViolation, w)
         else if bound = 0 then Some (Inl DivisionByZero, w)
         else if int (length keys) \<noteq> wrap_uint32 (wrap_size_t (size' + bound - 1)) div bound
         then Some (Inl InvariantViolation, w)
         else
           case acquire_buffer g ctx cpubuff' of
             Inl f \<Rightarrow> Some (Inl f, w)
           | Inr ctx' \<Rightarrow>
               (case InitTensor_loop g keys size' bound dtype (BPSContext.cpubuff ctx') 0 0 w of
                  None \<Rightarrow> None
                | Some (Inl f, w') \<Rightarrow> Some (Inl f, w')
                | Some (Inr (accumulated, i), w') \<Rightarrow>
                    if accumulated \<noteq> size' then Some (Inl InvariantViolation, w')
                    else if i \<noteq> length keys then Some (Inl InvariantViolation, w')
                    else Some (Inr (ctx'\<lparr>initialized := True\<rparr>), w')))"


section \<open>The partitions the spec describes\<close>

text \<open>
  The number of partitions of the spec, the ceiling of \<open>S / B\<close>, and the children it
  describes for a parent of size \<open>S\<close> under the bound \<open>B\<close>: the child of index \<open>j\<close> is
  the one the loop builds at \<open>accumulated = j * B\<close>.
\<close>

definition partition_count :: "int \<Rightarrow> int \<Rightarrow> nat" where
  "partition_count S B = nat \<lceil>real_of_int S / real_of_int B\<rceil>"

definition children :: "TensorTableEntry \<Rightarrow> int \<Rightarrow> int \<Rightarrow> TensorTableEntry list" where
  "children entry S B =
     map (\<lambda>j. new_partition entry S B (int j * B) (int j)) [0..<partition_count S B]"

text \<open>
  Notation for the effects: several tasks added to one queue, the partitions of an
  enqueue with their keys assigned, several calls to the parameter server, and the calls
  of the spec's init protocol for the partition of index \<open>j\<close>.
\<close>

definition add_tasks :: "QueueType \<Rightarrow> TensorTableEntry list \<Rightarrow> World \<Rightarrow> World" where
  "add_tasks q tasks w = w\<lparr>queues := (queues w)(q := queues w q @ tasks)\<rparr>"

definition keyed :: "nat list \<Rightarrow> TensorTableEntry list \<Rightarrow> TensorTableEntry list" where
  "keyed keys ps = map (\<lambda>j. (ps ! j)\<lparr>key := Some (keys ! j)\<rparr>) [0..<length ps]"

definition ps_calls :: "ps_event list \<Rightarrow> World \<Rightarrow> World" where
  "ps_calls evs w = w\<lparr>ps_log := ps_log w @ evs\<rparr>"

definition init_events ::
  "BytePSGlobal \<Rightarrow> nat list \<Rightarrow> int \<Rightarrow> int \<Rightarrow> int \<Rightarrow> nat option \<Rightarrow> nat \<Rightarrow> ps_event list" where
  "init_events g keys S B dtype data j =
     (if IsDistributed g \<and> IsRootDevice g then
        (if GetWorkerID g = 0 then
           [ZPush (keys ! j) data (int j * B) (min B (S - int j * B))
              (GetCommandType kDefaultPushPull dtype)]
         else [])
        @ [Barrier]
      else [])"




section \<open>The tables of the spec\<close>

text \<open>
  The tables of the spec (section 4.2), written from its numbered steps: one list per
  step, concatenated in the order of the steps.
\<close>

definition push_table :: "bool \<Rightarrow> bool \<Rightarrow> bool \<Rightarrow> bool \<Rightarrow> QueueType list" where
  "push_table is_distributed is_root_device is_cross_pcie_switch nccl_is_signal_root =
     (if nccl_is_signal_root then [REDUCE] else [COORDINATE_REDUCE, REDUCE])
     @ (if is_distributed \<or> is_cross_pcie_switch then [COPYD2H] else [])
     @ (if is_cross_pcie_switch then [PCIE_REDUCE] else [])
     @ (if is_distributed then (if is_root_device then [PUSH] else [COORDINATE_PUSH])
        else [])"

definition pull_table :: "bool \<Rightarrow> bool \<Rightarrow> bool \<Rightarrow> bool \<Rightarrow> QueueType list" where
  "pull_table is_distributed is_root_device is_cross_pcie_switch nccl_is_signal_root =
     (if is_distributed \<and> is_root_device then [PULL] else [])
     @ (if is_distributed \<or> is_cross_pcie_switch then [COPYH2D] else [])
     @ (if nccl_is_signal_root then [BROADCAST] else [COORDINATE_BROADCAST, BROADCAST])"

section \<open>Concrete inputs\<close>

text \<open>A node of scenario 2 of the spec: distributed, root device, one PCIe switch,
  signal root; worker 0, with a partition bound of 4 bytes.\<close>

definition root_node :: BytePSGlobal where
  "root_node = \<lparr>IsDistributed = True, IsRootDevice = True, IsCrossPcieSwitch = False,
     IsSignalRoot = True, GetPartitionBound = 4, GetWorkerID = 0,
     openSharedMemory = (\<lambda>k n. Some k),
     openPcieSharedMemory = (\<lambda>k n. [Some k])\<rparr>"

text \<open>A tensor of 10 bytes and a context registered for it with three keys; the same
  with one key only; a tensor of 12 bytes.\<close>

definition tensor10 :: Tensor where
  "tensor10 = \<lparr>tensor_size = 10\<rparr>"

definition tensor12 :: Tensor where
  "tensor12 = \<lparr>tensor_size = 12\<rparr>"

definition ctx10 :: BPSContext where
  "ctx10 = \<lparr>initialized = True, key_list = [20, 21, 22], buff_len = 10,
     cpubuff = Some 100, pcie_cpubuff = [], reuse_buff = False\<rparr>"

definition ctx_one_key :: BPSContext where
  "ctx_one_key = \<lparr>initialized = True, key_list = [20], buff_len = 10,
     cpubuff = Some 100, pcie_cpubuff = [], reuse_buff = False\<rparr>"

definition world0 :: World where
  "world0 = \<lparr>queues = (\<lambda>q. []), callbacks = [], ps_log = []\<rparr>"

definition task10 :: TensorTableEntry where
  "task10 = parent_task ctx10 (Some tensor10) None None ''grad'' 0 0 0 7 [REDUCE]"

text \<open>A tensor of 3 GiB on a node whose partition bound is 1 GiB.\<close>

definition big_node :: BytePSGlobal where
  "big_node = \<lparr>IsDistributed = False, IsRootDevice = True, IsCrossPcieSwitch = False,
     IsSignalRoot = True, GetPartitionBound = 2 ^ 30, GetWorkerID = 0,
     openSharedMemory = (\<lambda>k n. Some k),
     openPcieSharedMemory = (\<lambda>k n. [Some k])\<rparr>"

definition tensor_3GiB :: Tensor where
  "tensor_3GiB = \<lparr>tensor_size = 3 * 2 ^ 30\<rparr>"

definition ctx_3GiB :: BPSContext where
  "ctx_3GiB = \<lparr>initialized = True, key_list = [20, 21, 22], buff_len = 3 * 2 ^ 30,
     cpubuff = Some 100, pcie_cpubuff = [], reuse_buff = False\<rparr>"

definition task_3GiB :: TensorTableEntry where
  "task_3GiB = parent_task ctx_3GiB (Some tensor_3GiB) None None ''grad'' 0 0 0 7 [REDUCE]"

text \<open>Scenario 6 of the spec: a buffer of 9 bytes under a bound of 4, before and after
  its initialisation with the caller's buffer 100, and the calls that initialisation
  makes.\<close>

definition ctx9 :: BPSContext where
  "ctx9 = \<lparr>initialized = False, key_list = [30, 31, 32], buff_len = 9,
     cpubuff = None, pcie_cpubuff = [], reuse_buff = False\<rparr>"

definition ctx9_done :: BPSContext where
  "ctx9_done = \<lparr>initialized = True, key_list = [30, 31, 32], buff_len = 9,
     cpubuff = Some 100, pcie_cpubuff = [], reuse_buff = True\<rparr>"

definition init_log9 :: "ps_event list" where
  "init_log9 =
     [ZPush 30 (Some 100) 0 4 (GetCommandType kDefaultPushPull 0), Barrier,
      ZPush 31 (Some 100) 4 4 (GetCommandType kDefaultPushPull 0), Barrier,
      ZPush 32 (Some 100) 8 1 (GetCommandType kDefaultPushPull 0), Barrier]"

text \<open>A buffer of 4 GiB with 1049 keys, on a node whose partition bound is 4096000
  bytes.\<close>

definition default_node :: BytePSGlobal where
  "default_node = \<lparr>IsDistributed = True, IsRootDevice = True, IsCrossPcieSwitch = False,
     IsSignalRoot = True, GetPartitionBound = 4096000, GetWorkerID = 0,
     openSharedMemory = (\<lambda>k n. Some k),
     openPcieSharedMemory = (\<lambda>k n. [Some k])\<rparr>"

definition ctx_4GiB :: BPSContext where
  "ctx_4GiB = \<lparr>initialized = False, key_list = [0..<1049], buff_len = 2 ^ 32,
     cpubuff = None, pcie_cpubuff = [], reuse_buff = False\<rparr>"

section \<open>Values in range are stored unchanged\<close>

lemma wrap_int32_id: "- (2 ^ 31) \<le> x \<Longrightarrow> x < 2 ^ 31 \<Longrightarrow> wrap_int32 x = x"
  by (simp add: wrap_int32_def)

lemma wrap_uint32_id: "0 \<le> x \<Longrightarrow> x < 2 ^ 32 \<Longrightarrow> wrap_uint32 x = x"
  by (simp add: wrap_uint32_def)

lemma wrap_int64_id: "- (2 ^ 63) \<le> x \<Longrightarrow> x < 2 ^ 63 \<Longrightarrow> wrap_int64 x = x"
  by (simp add: wrap_int64_def)

lemma wrap_size_t_id: "0 \<le> x \<Longrightarrow> x < 2 ^ 64 \<Longrightarrow> wrap_size_t x = x"
  by (simp add: wrap_size_t_def)

section \<open>Rounding up\<close>

lemma lt_round_up_iff:
  fixes k S B :: int
  assumes "0 < B"
  shows "k < (S + B - 1) div B \<longleftrightarrow> k * B < S"
proof -
  have "(S - k * B + B - 1 + k * B) div B = k + (S - k * B + B - 1) div B"
    using assms by (intro div_mult_self1) simp
  moreover have "S - k * B + B - 1 + k * B = S + B - 1"
    by simp
  ultimately have "(S + B - 1) div B = k + (S - k * B + B - 1) div B"
    by (simp only:)
  moreover have "0 < (S - k * B + B - 1) div B \<longleftrightarrow> B \<le> S - k * B + B - 1"
    using assms by (rule pos_imp_zdiv_pos_iff)
  ultimately show ?thesis
    by linarith
qed

lemma ceiling_round_up:
  fixes S B :: int
  assumes "0 < B"
  shows "\<lceil>real_of_int S / real_of_int B\<rceil> = (S + B - 1) div B"
proof (rule ceiling_unique)
  let ?q = "(S + B - 1) div B"
  have "(?q - 1) * B < S"
    using lt_round_up_iff [OF assms, of "?q - 1" S] by simp
  then have "real_of_int ((?q - 1) * B) < real_of_int S"
    by (simp only: of_int_less_iff)
  then show "real_of_int ?q - 1 < real_of_int S / real_of_int B"
    using assms by (simp add: pos_less_divide_eq)
  have "S \<le> ?q * B"
    using lt_round_up_iff [OF assms, of ?q S] by simp
  then have "real_of_int S \<le> real_of_int (?q * B)"
    by (simp only: of_int_le_iff)
  then show "real_of_int S / real_of_int B \<le> real_of_int ?q"
    using assms by (simp add: pos_divide_le_eq)
qed

lemma partition_count_round_up:
  "0 < B \<Longrightarrow> partition_count S B = nat ((S + B - 1) div B)"
  by (simp add: partition_count_def ceiling_round_up)

lemma lt_partition_count_iff:
  "0 < B \<Longrightarrow> k < partition_count S B \<longleftrightarrow> int k * B < S"
  by (simp add: partition_count_round_up zless_nat_eq_int_zless lt_round_up_iff)

section \<open>The loop of PartitionTensor\<close>

lemma new_partition_in_range:
  assumes "0 \<le> a" "a < S" "S < 2 ^ 31" "0 < B"
  shows "offset (new_partition entry S B a i) = a"
    and "len (new_partition entry S B a i) = min B (S - a)"
proof -
  have d: "wrap_int64 (S - a) = S - a"
    using assms by (intro wrap_int64_id) simp_all
  have m: "wrap_uint32 (min B (S - a)) = min B (S - a)"
    using assms by (intro wrap_uint32_id) simp_all
  show "offset (new_partition entry S B a i) = a"
    using assms by (simp add: new_partition_def wrap_uint32_id)
  have "len (new_partition entry S B a i) = wrap_uint32 (min B (S - a))"
    by (simp add: new_partition_def d min_def)
  then show "len (new_partition entry S B a i) = min B (S - a)"
    by (simp only: m)
qed

lemma key_new_partition [simp]: "key (new_partition entry S B a i) = None"
  by (simp add: new_partition_def)

lemma PartitionTensor_loop_in_range:
  assumes B: "0 < B" and S: "S < 2 ^ 31"
  shows "k \<le> partition_count S B \<Longrightarrow>
    PartitionTensor_loop entry S B (min (int k * B) S) (int k) ps =
      Some (ps @ map (\<lambda>j. new_partition entry S B (int j * B) (int j))
                   [k..<partition_count S B])"
proof (induction "partition_count S B - k" arbitrary: k ps)
  case 0
  then have "k = partition_count S B"
    by simp
  then have "\<not> int k * B < S"
    using lt_partition_count_iff [OF B, of k S] by simp
  then have "\<not> min (int k * B) S < S"
    by simp
  then show ?case
    using \<open>k = partition_count S B\<close>
    by (subst PartitionTensor_loop.simps) simp
next
  case (Suc d)
  then have lt: "k < partition_count S B"
    by simp
  then have kB: "int k * B < S"
    using lt_partition_count_iff [OF B, of k S] by simp
  have k0: "0 \<le> int k * B"
    using B by simp
  have "int k * 1 \<le> int k * B"
    using B by (intro mult_left_mono) simp_all
  then have kS: "int k + 1 \<le> S"
    using kB by simp
  let ?e = "new_partition entry S B (int k * B) (int k)"
  have len_e: "len ?e = min B (S - int k * B)"
    using k0 kB S B by (rule new_partition_in_range)
  have next_acc: "int k * B + len ?e = min (int (Suc k) * B) S"
    unfolding len_e by (simp add: min_def algebra_simps)
  have S0: "0 < S"
    using k0 kB by linarith
  have nn: "0 \<le> int (Suc k) * B"
    using B by simp
  have "0 \<le> min (int (Suc k) * B) S" "min (int (Suc k) * B) S < 2 ^ 31"
    using nn S0 S by (simp_all add: min_less_iff_disj)
  then have w1: "wrap_int32 (int k * B + len ?e) = min (int (Suc k) * B) S"
    unfolding next_acc by (intro wrap_int32_id) simp_all
  have w2: "wrap_int32 (int k + 1) = int (Suc k)"
    using kS S by (simp add: wrap_int32_id)
  have IH: "PartitionTensor_loop entry S B (min (int (Suc k) * B) S) (int (Suc k)) (ps @ [?e]) =
      Some ((ps @ [?e]) @ map (\<lambda>j. new_partition entry S B (int j * B) (int j))
                   [Suc k..<partition_count S B])"
    using Suc.hyps(2) lt by (intro Suc.hyps(1)) simp_all
  have "PartitionTensor_loop entry S B (min (int k * B) S) (int k) ps =
      PartitionTensor_loop entry S B (min (int (Suc k) * B) S) (int (Suc k)) (ps @ [?e])"
    using kB by (subst PartitionTensor_loop.simps) (simp add: min_absorb1 w1 w2 Let_def)
  also note IH
  finally show ?case
    using lt by (simp add: upt_conv_Cons)
qed

lemma sum_partition_lens:
  assumes B: "0 < B" and S: "0 \<le> S"
  shows "m \<le> partition_count S B \<Longrightarrow>
    (\<Sum>j\<leftarrow>[0..<m]. min B (S - int j * B)) = min (int m * B) S"
proof (induction m)
  case 0
  then show ?case using S by simp
next
  case (Suc m)
  then have "int m * B < S"
    using lt_partition_count_iff [OF B, of m S] by simp
  then show ?case
    using Suc by (simp add: min_def algebra_simps)
qed

lemma partition_count_covers:
  assumes "0 < B"
  shows "S \<le> int (partition_count S B) * B"
  using lt_partition_count_iff [OF assms, of "partition_count S B" S] by simp

lemma wrap_int32_less: "wrap_int32 x < 2 ^ 31"
  by (simp add: wrap_int32_def)

lemma PartitionTensor_loop_diverges_aux:
  assumes "PartitionTensor_loop entry S B a i ps = Some y"
  shows "a < 2 ^ 31 \<longrightarrow> S < 2 ^ 31"
proof (rule PartitionTensor_loop.raw_induct
    [where P = "\<lambda>entry S B a i ps y. a < 2 ^ 31 \<longrightarrow> S < 2 ^ 31", OF _ assms])
  fix loop entry S B a i ps y
  assume IH: "\<And>entry S B a i ps y.
      loop entry S B a i ps = Some y \<Longrightarrow> a < 2 ^ 31 \<longrightarrow> S < (2 ^ 31 :: int)"
    and step: "(if a < S then
        let e = new_partition entry S B a i
        in loop entry S B (wrap_int32 (a + len e)) (wrap_int32 (i + 1)) (ps @ [e])
      else Some ps) = Some y"
  show "a < 2 ^ 31 \<longrightarrow> S < 2 ^ 31"
  proof (cases "a < S")
    case True
    with step have "loop entry S B (wrap_int32 (a + len (new_partition entry S B a i)))
        (wrap_int32 (i + 1)) (ps @ [new_partition entry S B a i]) = Some y"
      by (simp add: Let_def)
    from IH [OF this] wrap_int32_less [of "a + len (new_partition entry S B a i)"]
    show ?thesis
      by simp
  next
    case False
    then show ?thesis by auto
  qed
qed

lemma PartitionTensor_loop_diverges:
  assumes "2 ^ 31 \<le> S"
  shows "PartitionTensor_loop entry S B 0 0 ps = None"
proof (cases "PartitionTensor_loop entry S B 0 0 ps")
  case None
  then show ?thesis .
next
  case (Some y)
  from PartitionTensor_loop_diverges_aux [OF this] assms show ?thesis
    by simp
qed

lemma PartitionTensor_in_range:
  assumes c: "counter_ptr entry \<noteq> None" and sz: "entry_size entry = Inr S"
    and S: "S < 2 ^ 31" and B: "0 < GetPartitionBound g"
  shows "PartitionTensor g entry ps = Some (Inr (ps @ children entry S (GetPartitionBound g)))"
proof (cases "0 \<le> S")
  case True
  then have "min (int 0 * GetPartitionBound g) S = 0"
    by simp
  with PartitionTensor_loop_in_range [OF B S, of 0 entry ps]
  have "PartitionTensor_loop entry S (GetPartitionBound g) 0 0 ps =
      Some (ps @ children entry S (GetPartitionBound g))"
    by (simp add: children_def)
  then show ?thesis
    using c sz by (simp add: PartitionTensor_def)
next
  case False
  then have "partition_count S (GetPartitionBound g) = 0"
    using lt_partition_count_iff [OF B, of 0 S] by simp
  moreover have "PartitionTensor_loop entry S (GetPartitionBound g) 0 0 ps = Some ps"
    using False by (subst PartitionTensor_loop.simps) simp
  ultimately show ?thesis
    using c sz by (simp add: PartitionTensor_def children_def)
qed

lemma length_children [simp]: "length (children entry S B) = partition_count S B"
  by (simp add: children_def)

lemma nth_children:
  assumes "i < partition_count S B" "0 < B" "S < 2 ^ 31"
  shows "offset (children entry S B ! i) = int i * B"
    and "len (children entry S B ! i) = min B (S - int i * B)"
    and "key (children entry S B ! i) = None"
proof -
  have lt: "int i * B < S"
    using assms lt_partition_count_iff [of B i S] by simp
  have nn: "0 \<le> int i * B"
    using assms by simp
  show "offset (children entry S B ! i) = int i * B"
    using assms new_partition_in_range(1) [OF nn lt] by (simp add: children_def)
  show "len (children entry S B ! i) = min B (S - int i * B)"
    using assms new_partition_in_range(2) [OF nn lt] by (simp add: children_def)
  show "key (children entry S B ! i) = None"
    using assms by (simp add: children_def)
qed

lemma sum_len_children:
  assumes B: "0 < B" and S0: "0 \<le> S" and S: "S < 2 ^ 31"
  shows "sum_list (map len (children entry S B)) = S"
proof -
  have "map len (children entry S B) =
      map (\<lambda>j. min B (S - int j * B)) [0..<partition_count S B]"
    using nth_children(2) [OF _ B S, of _ entry]
    by (intro nth_equalityI) simp_all
  then have "sum_list (map len (children entry S B)) = min (int (partition_count S B) * B) S"
    using sum_partition_lens [OF B S0, of "partition_count S B"] by simp
  then show ?thesis
    using partition_count_covers [OF B, of S] by simp
qed

section \<open>The loop and the checks of EnqueueTensor\<close>

lemma add_tasks_Nil [simp]: "add_tasks q [] w = w"
  by (simp add: add_tasks_def)

lemma add_tasks_addTask: "add_tasks q tasks (addTask q task w) = add_tasks q (task # tasks) w"
  by (simp add: add_tasks_def addTask_def)

lemma enqueue_loop_queues:
  "i \<le> length ps \<Longrightarrow>
   snd (enqueue_loop keys q ps i acc w) =
     add_tasks q (map (\<lambda>j. (ps ! j)\<lparr>key := Some (keys ! j)\<rparr>) [i..<length ps]) w"
proof (induction keys q ps i acc w rule: enqueue_loop.induct)
  case (1 keys q ps i acc w)
  show ?case
  proof (cases "i < length ps")
    case True
    then show ?thesis
      using 1(1) [OF True refl refl]
      by (subst enqueue_loop.simps) (simp add: Let_def add_tasks_addTask upt_conv_Cons)
  next
    case False
    with 1(2) show ?thesis
      by (subst enqueue_loop.simps) simp
  qed
qed

lemma enqueue_loop_accumulated:
  "i \<le> length ps \<Longrightarrow> wrap_uint32 acc = acc \<Longrightarrow>
   fst (enqueue_loop keys q ps i acc w) = wrap_uint32 (acc + sum_list (map len (drop i ps)))"
proof (induction keys q ps i acc w rule: enqueue_loop.induct)
  case (1 keys q ps i acc w)
  show ?case
  proof (cases "i < length ps")
    case True
    have d: "drop i ps = ps ! i # drop (Suc i) ps"
      using True by (simp add: Cons_nth_drop_Suc)
    have "wrap_uint32 (wrap_uint32 (acc + len (ps ! i))) = wrap_uint32 (acc + len (ps ! i))"
      by (simp add: wrap_uint32_def)
    then have "fst (enqueue_loop keys q ps (i + 1) (wrap_uint32 (acc + len (ps ! i)))
          (addTask q ((ps ! i)\<lparr>key := Some (keys ! i)\<rparr>) w)) =
        wrap_uint32 (wrap_uint32 (acc + len (ps ! i)) + sum_list (map len (drop (i + 1) ps)))"
      using 1(1) [OF True refl refl] True by simp
    also have "\<dots> = wrap_uint32 (acc + sum_list (map len (drop i ps)))"
      by (simp add: d wrap_uint32_def mod_add_left_eq add.assoc)
    finally show ?thesis
      using True by (subst enqueue_loop.simps) (simp add: Let_def)
  next
    case False
    with 1(2,3) show ?thesis
      by (subst enqueue_loop.simps) simp
  qed
qed

lemma entry_size_parent_task:
  "entry_size (parent_task ctx input' out re name dev prio ver cb ql) =
     (case input' of
        Some t \<Rightarrow> Inr (tensor_size t)
      | None \<Rightarrow> (case out of Some t \<Rightarrow> Inr (tensor_size t) | None \<Rightarrow> Inl NullDereference))"
  by (simp add: entry_size_def parent_task_def split: option.splits)

lemma PartitionTensor_Inr_size:
  assumes "PartitionTensor g entry ps0 = Some (Inr ps)"
  obtains S where "entry_size entry = Inr S"
  using assms by (auto simp: PartitionTensor_def split: if_splits sum.splits)

lemma enqueue_loop_eq:
  "enqueue_loop keys q ps 0 0 w =
     (wrap_uint32 (sum_list (map len ps)),
      add_tasks q (map (\<lambda>j. (ps ! j)\<lparr>key := Some (keys ! j)\<rparr>) [0..<length ps]) w)"
proof -
  have "fst (enqueue_loop keys q ps 0 0 w) = wrap_uint32 (sum_list (map len ps))"
    using enqueue_loop_accumulated [of 0 ps 0 keys q w] by (simp add: wrap_uint32_def)
  moreover have "snd (enqueue_loop keys q ps 0 0 w) =
      add_tasks q (map (\<lambda>j. (ps ! j)\<lparr>key := Some (keys ! j)\<rparr>) [0..<length ps]) w"
    using enqueue_loop_queues [of 0 ps keys q 0 w] by simp
  ultimately show ?thesis
    by (simp add: prod_eq_iff)
qed

lemma EnqueueTensor_partitioned:
  assumes "\<not> sizes_differ input' out"
    and "PartitionTensor g (parent_task ctx input' out re name dev prio ver cb ql) [] =
           Some (Inr ps)"
    and "entry_size (parent_task ctx input' out re name dev prio ver cb ql) = Inr S"
  shows "EnqueueTensor g ctx input' out re name dev prio ver cb ql w =
     Some (if length (key_list ctx) \<noteq> length ps then (Inl InvariantViolation, w)
           else if ql = [] then (Inr OK, invoke cb OK w)
           else (if wrap_uint32 (sum_list (map len ps)) = S then Inr OK
                 else Inl InvariantViolation,
                 add_tasks (ql ! 0) (keyed (key_list ctx) ps) w))"
  using assms
  by (simp add: EnqueueTensor_def Let_def enqueue_loop_eq keyed_def)
     (simp add: parent_task_def)

lemma partition_count_10_4: "partition_count 10 4 = 3"
  by (simp add: partition_count_round_up)

lemma upt_3: "[0..<3] = [0, 1, 2]"
  by code_simp

lemma map_offset_children:
  assumes "0 < B" "S < 2 ^ 31"
  shows "map offset (children entry S B) = map (\<lambda>j. int j * B) [0..<partition_count S B]"
  using nth_children(1) [OF _ assms, of _ entry] by (intro nth_equalityI) simp_all

lemma map_len_children:
  assumes "0 < B" "S < 2 ^ 31"
  shows "map len (children entry S B) =
    map (\<lambda>j. min B (S - int j * B)) [0..<partition_count S B]"
  using nth_children(2) [OF _ assms, of _ entry] by (intro nth_equalityI) simp_all

lemma PartitionTensor_loop_keys:
  assumes "PartitionTensor_loop entry S B a i ps = Some y"
  shows "(\<forall>p \<in> set ps. key p = None) \<longrightarrow> (\<forall>p \<in> set y. key p = None)"
proof (rule PartitionTensor_loop.raw_induct
    [where P = "\<lambda>entry S B a i ps y.
        (\<forall>p \<in> set ps. key p = None) \<longrightarrow> (\<forall>p \<in> set y. key p = None)", OF _ assms])
  fix loop entry S B a i ps y
  assume IH: "\<And>entry S B a i ps y.
      loop entry S B a i ps = Some y \<Longrightarrow>
      (\<forall>p \<in> set ps. key p = None) \<longrightarrow> (\<forall>p \<in> set y. key p = None)"
    and step: "(if a < S then
        let e = new_partition entry S B a i
        in loop entry S B (wrap_int32 (a + len e)) (wrap_int32 (i + 1)) (ps @ [e])
      else Some ps) = Some y"
  show "(\<forall>p \<in> set ps. key p = None) \<longrightarrow> (\<forall>p \<in> set y. key p = None)"
  proof (cases "a < S")
    case True
    with step have "loop entry S B (wrap_int32 (a + len (new_partition entry S B a i)))
        (wrap_int32 (i + 1)) (ps @ [new_partition entry S B a i]) = Some y"
      by (simp add: Let_def)
    from IH [OF this] show ?thesis
      by simp
  next
    case False
    with step show ?thesis by auto
  qed
qed

lemma PartitionTensor_keys:
  assumes "PartitionTensor g entry [] = Some (Inr ps)"
  shows "\<forall>p \<in> set ps. key p = None"
proof -
  from assms obtain S where
    "PartitionTensor_loop entry S (GetPartitionBound g) 0 0 [] = Some ps"
    by (auto simp: PartitionTensor_def split: if_splits sum.splits)
  from PartitionTensor_loop_keys [OF this] show ?thesis
    by simp
qed

lemma EnqueueTensor_cases:
  assumes "\<not> sizes_differ input' out"
  shows "EnqueueTensor g ctx input' out re name dev prio ver cb ql w =
    (case PartitionTensor g (parent_task ctx input' out re name dev prio ver cb ql) [] of
       None \<Rightarrow> None
     | Some (Inl f) \<Rightarrow> Some (Inl f, w)
     | Some (Inr ps) \<Rightarrow>
         if length (key_list ctx) \<noteq> length ps then Some (Inl InvariantViolation, w)
         else if ql = [] then Some (Inr OK, invoke cb OK w)
         else Some (if Inr (wrap_uint32 (sum_list (map len ps))) =
                       entry_size (parent_task ctx input' out re name dev prio ver cb ql)
                    then Inr OK else Inl InvariantViolation,
                    add_tasks (ql ! 0) (keyed (key_list ctx) ps) w))"
proof (cases "PartitionTensor g (parent_task ctx input' out re name dev prio ver cb ql) []")
  case None
  then show ?thesis
    using assms by (simp add: EnqueueTensor_def)
next
  case (Some r)
  show ?thesis
  proof (cases r)
    case (Inl f)
    with Some show ?thesis
      using assms by (simp add: EnqueueTensor_def)
  next
    case (Inr ps)
    with Some have p: "PartitionTensor g (parent_task ctx input' out re name dev prio ver cb ql) []
        = Some (Inr ps)"
      by simp
    from PartitionTensor_Inr_size [OF p] obtain S where
      S: "entry_size (parent_task ctx input' out re name dev prio ver cb ql) = Inr S"
      by blast
    from EnqueueTensor_partitioned [OF assms p S, of w] show ?thesis
      by (simp add: p S)
  qed
qed

section \<open>The loop and the checks of InitTensor\<close>

lemma ps_calls_Nil [simp]: "ps_calls [] w = w"
  by (simp add: ps_calls_def)

lemma ps_calls_ps_calls [simp]: "ps_calls ys (ps_calls xs w) = ps_calls (xs @ ys) w"
  by (simp add: ps_calls_def)

lemma ps_call_eq: "ps_call ev w = ps_calls [ev] w"
  by (simp add: ps_call_def ps_calls_def)

lemma init_partition_eq:
  "init_partition g (keys ! j) data (int j * B) (min B (S - int j * B)) dtype w =
     ps_calls (init_events g keys S B dtype data j) w"
  by (simp add: init_partition_def init_events_def ps_call_eq)

lemma InitTensor_loop_in_range:
  assumes B: "0 < B" and S0: "0 \<le> S" and S: "S < 2 ^ 64" and L: "min B S < 2 ^ 31"
    and keys: "length keys = partition_count S B"
  shows "k \<le> partition_count S B \<Longrightarrow>
    InitTensor_loop g keys S B dtype data (min (int k * B) S) k w =
      Some (Inr (S, partition_count S B),
            ps_calls (concat (map (init_events g keys S B dtype data)
                                [k..<partition_count S B])) w)"
proof (induction "partition_count S B - k" arbitrary: k w)
  case 0
  then have k: "k = partition_count S B"
    by simp
  then have "\<not> int k * B < S"
    using lt_partition_count_iff [OF B, of k S] by simp
  then have "min (int k * B) S = S"
    by simp
  then show ?case
    using k by (subst InitTensor_loop.simps) simp
next
  case (Suc d)
  then have lt: "k < partition_count S B"
    by simp
  then have kB: "int k * B < S"
    using lt_partition_count_iff [OF B, of k S] by simp
  have k0: "0 \<le> int k * B"
    using B by simp
  let ?len = "min B (S - int k * B)"
  have "?len \<le> min B S"
    using k0 by (simp add: min_le_iff_disj)
  then have "?len < 2 ^ 31"
    using L by linarith
  moreover have "0 \<le> ?len"
    using kB B by simp
  ultimately have "wrap_int32 ?len = ?len"
    by (intro wrap_int32_id) simp_all
  moreover have "(if S - int k * B > B then B else S - int k * B) = ?len"
    by (simp add: min_def)
  ultimately have w1: "wrap_int32 (if S - int k * B > B then B else S - int k * B) = ?len"
    by (simp only:)
  have next_acc: "int k * B + ?len = min (int (Suc k) * B) S"
    by (simp add: min_def algebra_simps)
  have nn: "0 \<le> int (Suc k) * B"
    using B by simp
  have "0 \<le> min (int (Suc k) * B) S" "min (int (Suc k) * B) S < 2 ^ 64"
    using nn S0 S by (simp_all add: min_less_iff_disj)
  then have w2: "wrap_size_t (int k * B + ?len) = min (int (Suc k) * B) S"
    unfolding next_acc by (intro wrap_size_t_id) simp_all
  let ?w = "ps_calls (init_events g keys S B dtype data k) w"
  have IH: "InitTensor_loop g keys S B dtype data (min (int (Suc k) * B) S) (Suc k) ?w =
      Some (Inr (S, partition_count S B),
            ps_calls (concat (map (init_events g keys S B dtype data)
                                [Suc k..<partition_count S B])) ?w)"
    using Suc.hyps(2) lt by (intro Suc.hyps(1)) simp_all
  have m: "min (int k * B) S = int k * B"
    using kB by simp
  have "InitTensor_loop g keys S B dtype data (int k * B) k w =
      InitTensor_loop g keys S B dtype data (min (int (Suc k) * B) S) (Suc k) ?w"
    using kB lt keys
    by (subst InitTensor_loop.simps)
       (simp add: w1 w2 Let_def init_partition_eq split del: if_split)
  then have "InitTensor_loop g keys S B dtype data (min (int k * B) S) k w =
      InitTensor_loop g keys S B dtype data (min (int (Suc k) * B) S) (Suc k) ?w"
    by (simp only: m)
  also note IH
  finally show ?case
    using lt by (simp add: upt_conv_Cons)
qed

lemma InitTensor_check_in_range:
  assumes B: "0 < B" and S0: "0 \<le> S" and SB: "S + B - 1 < 2 ^ 32"
  shows "wrap_uint32 (wrap_size_t (S + B - 1)) div B = int (partition_count S B)"
proof -
  have "0 \<le> S + B - 1"
    using B S0 by simp
  then have "wrap_uint32 (wrap_size_t (S + B - 1)) = S + B - 1"
    using SB by (simp add: wrap_size_t_id wrap_uint32_id)
  moreover have "0 \<le> (S + B - 1) div B"
    using B \<open>0 \<le> S + B - 1\<close> by (simp add: pos_imp_zdiv_nonneg_iff)
  ultimately show ?thesis
    using B by (simp add: partition_count_round_up)
qed

lemma InitTensor_in_range:
  assumes B: "0 < GetPartitionBound g" and S0: "0 \<le> buff_len ctx"
    and L: "min (GetPartitionBound g) (buff_len ctx) < 2 ^ 31"
    and SB: "buff_len ctx + GetPartitionBound g - 1 < 2 ^ 32"
  shows "InitTensor g ctx name dtype cpubuff' w =
    (if key_list ctx = [] \<or>
        length (key_list ctx) \<noteq> partition_count (buff_len ctx) (GetPartitionBound g)
     then Some (Inl InvariantViolation, w)
     else case acquire_buffer g ctx cpubuff' of
            Inl f \<Rightarrow> Some (Inl f, w)
          | Inr ctx' \<Rightarrow>
              Some (Inr (ctx'\<lparr>initialized := True\<rparr>),
                    ps_calls (concat (map (init_events g (key_list ctx) (buff_len ctx)
                        (GetPartitionBound g) dtype (BPSContext.cpubuff ctx'))
                      [0..<length (key_list ctx)])) w))"
proof -
  have S: "buff_len ctx < 2 ^ 64"
    using B SB by simp
  show ?thesis
  proof (cases "key_list ctx = [] \<or>
      length (key_list ctx) \<noteq> partition_count (buff_len ctx) (GetPartitionBound g)")
    case True
    then show ?thesis
      using B InitTensor_check_in_range [OF B S0 SB]
      by (auto simp: InitTensor_def Let_def)
  next
    case False
    then have keys:
      "length (key_list ctx) = partition_count (buff_len ctx) (GetPartitionBound g)"
      by simp
    have loop: "InitTensor_loop g (key_list ctx) (buff_len ctx) (GetPartitionBound g) dtype
          data 0 0 w =
        Some (Inr (buff_len ctx, partition_count (buff_len ctx) (GetPartitionBound g)),
              ps_calls (concat (map (init_events g (key_list ctx) (buff_len ctx)
                          (GetPartitionBound g) dtype data)
                        [0..<partition_count (buff_len ctx) (GetPartitionBound g)])) w)"
      for data
      using InitTensor_loop_in_range [OF B S0 S L keys, of 0 g dtype data w] S0 by simp
    show ?thesis
      using False B InitTensor_check_in_range [OF B S0 SB]
      by (simp add: InitTensor_def Let_def loop split: sum.splits)
  qed
qed

lemma count_init_events:
  "length (filter (\<lambda>e. e = Barrier)
      (concat (map (init_events g keys S B dtype data) js))) =
     (if IsDistributed g \<and> IsRootDevice g then length js else 0)"
  "length (filter (\<lambda>e. e \<noteq> Barrier)
      (concat (map (init_events g keys S B dtype data) js))) =
     (if IsDistributed g \<and> IsRootDevice g \<and> GetWorkerID g = 0 then length js else 0)"
  by (induction js) (simp_all add: init_events_def)

lemma partition_count_9_4: "partition_count 9 4 = 3"
  by (simp add: partition_count_round_up)

section \<open>The effects, field by field\<close>

lemma invoke_simps [simp]:
  "queues (invoke cb st w) = queues w"
  "callbacks (invoke cb st w) = callbacks w @ [(cb, st)]"
  "ps_log (invoke cb st w) = ps_log w"
  by (simp_all add: invoke_def)

lemma add_tasks_simps [simp]:
  "queues (add_tasks q tasks w) q = queues w q @ tasks"
  "q' \<noteq> q \<Longrightarrow> queues (add_tasks q tasks w) q' = queues w q'"
  "callbacks (add_tasks q tasks w) = callbacks w"
  "ps_log (add_tasks q tasks w) = ps_log w"
  by (simp_all add: add_tasks_def)

lemma GetQueueList_CPU [simp]:
  "GetPushQueueList g CPU_DEVICE_ID = []" "GetPullQueueList g CPU_DEVICE_ID = []"
  by (simp_all add: GetPushQueueList_def GetPullQueueList_def)

lemma length_keyed [simp]: "length (keyed keys ps) = length ps"
  by (simp add: keyed_def)

lemma nth_keyed [simp]: "i < length ps \<Longrightarrow> keyed keys ps ! i = (ps ! i)\<lparr>key := Some (keys ! i)\<rparr>"
  by (simp add: keyed_def)

lemma PartitionTensor_10:
  "PartitionTensor root_node (parent_task ctx (Some tensor10) None re name dev prio ver cb ql) []
     = Some (Inr (children (parent_task ctx (Some tensor10) None re name dev prio ver cb ql) 10 4))"
proof -
  have "PartitionTensor root_node (parent_task ctx (Some tensor10) None re name dev prio ver cb ql) []
     = Some (Inr ([] @ children (parent_task ctx (Some tensor10) None re name dev prio ver cb ql) 10
          (GetPartitionBound root_node)))"
    by (rule PartitionTensor_in_range)
       (simp_all add: entry_size_parent_task tensor10_def root_node_def,
        simp add: parent_task_def)
  then show ?thesis
    by (simp add: root_node_def)
qed

lemma map_key_keyed:
  "length ps = length keys \<Longrightarrow> map key (keyed keys ps) = map Some keys"
  by (intro nth_equalityI) simp_all


section \<open>Sizes within the range of the 32-bit variables\<close>

text \<open>
  For a parent task whose byte size \<open>S\<close> satisfies \<open>0 < S < 2^31\<close> and a partition bound
  \<open>B > 0\<close>, \<^verbatim>\<open>PartitionTensor\<close> returns exactly \<open>\<lceil>S / B\<rceil>\<close> children; the child of index
  \<open>i\<close> has offset \<open>i * B\<close> and length \<open>min B (S - i * B)\<close>, and the lengths sum to \<open>S\<close>.
  \<^verbatim>\<open>EnqueueTensor\<close>, called for such a tensor with sizes of input and output that do not
  differ and a queue list that is not empty, fails with \<open>InvariantViolation\<close> unless the
  context has \<open>\<lceil>S / B\<rceil>\<close> keys, and returns OK when it has: the check of the summed
  lengths against the size then holds.
\<close>

lemma PartitionTensor_partitions:
  assumes "0 < S" and "S < 2 ^ 31" and "0 < GetPartitionBound g"
    and "counter_ptr entry \<noteq> None" and "entry_size entry = Inr S"
    and "\<not> sizes_differ input' out"
    and "entry_size (parent_task ctx input' out re name dev prio ver cb ql) = Inr S"
    and "ql \<noteq> []"
  shows
   "PartitionTensor g entry [] = Some (Inr (children entry S (GetPartitionBound g))) \<and>
    length (children entry S (GetPartitionBound g)) =
      nat \<lceil>real_of_int S / real_of_int (GetPartitionBound g)\<rceil> \<and>
    (\<forall>i < length (children entry S (GetPartitionBound g)).
       offset (children entry S (GetPartitionBound g) ! i) = int i * GetPartitionBound g \<and>
       len (children entry S (GetPartitionBound g) ! i) =
         min (GetPartitionBound g) (S - int i * GetPartitionBound g)) \<and>
    sum_list (map len (children entry S (GetPartitionBound g))) = S \<and>
    EnqueueTensor g ctx input' out re name dev prio ver cb ql w =
      (if length (key_list ctx) = nat \<lceil>real_of_int S / real_of_int (GetPartitionBound g)\<rceil>
       then Some (Inr OK,
              add_tasks (ql ! 0)
                (keyed (key_list ctx)
                   (children (parent_task ctx input' out re name dev prio ver cb ql) S
                      (GetPartitionBound g))) w)
       else Some (Inl InvariantViolation, w))"
proof -
  let ?B = "GetPartitionBound g"
  let ?e = "parent_task ctx input' out re name dev prio ver cb ql"
  have 1: "PartitionTensor g entry [] = Some (Inr (children entry S ?B))"
    using PartitionTensor_in_range [OF assms(4,5,2,3), where ps = "[]"] by simp
  have 2: "length (children entry S ?B) = nat \<lceil>real_of_int S / real_of_int ?B\<rceil>"
    by (simp add: partition_count_def)
  have 3: "\<forall>i < length (children entry S ?B).
       offset (children entry S ?B ! i) = int i * ?B \<and>
       len (children entry S ?B ! i) = min ?B (S - int i * ?B)"
    using nth_children(1,2) [OF _ assms(3,2), where entry = entry] by simp
  have 4: "sum_list (map len (children entry S ?B)) = S"
    using assms by (intro sum_len_children) simp_all
  have "counter_ptr ?e \<noteq> None"
    by (simp add: parent_task_def)
  then have "PartitionTensor g ?e [] = Some (Inr (children ?e S ?B))"
    using PartitionTensor_in_range [OF _ assms(7,2,3), where ps = "[]"] by simp
  from EnqueueTensor_partitioned [OF assms(6) this assms(7), of w]
  have "EnqueueTensor g ctx input' out re name dev prio ver cb ql w =
     Some (if length (key_list ctx) \<noteq> partition_count S ?B then (Inl InvariantViolation, w)
           else (if wrap_uint32 (sum_list (map len (children ?e S ?B))) = S then Inr OK
                 else Inl InvariantViolation,
                 add_tasks (ql ! 0) (keyed (key_list ctx) (children ?e S ?B)) w))"
    using assms(8) by simp
  moreover have "sum_list (map len (children ?e S ?B)) = S"
    using assms by (intro sum_len_children) simp_all
  moreover have "wrap_uint32 S = S"
    using assms by (intro wrap_uint32_id) simp_all
  ultimately have 5: "EnqueueTensor g ctx input' out re name dev prio ver cb ql w =
      (if length (key_list ctx) = nat \<lceil>real_of_int S / real_of_int ?B\<rceil>
       then Some (Inr OK, add_tasks (ql ! 0) (keyed (key_list ctx) (children ?e S ?B)) w)
       else Some (Inl InvariantViolation, w))"
    by (simp add: partition_count_def)
  from 1 2 3 4 5 show ?thesis
    by blast
qed

lemma PartitionTensor_partitions_example:
  "PartitionTensor root_node task10 [] = Some (Inr (children task10 10 4)) \<and>
   length (children task10 10 4) = 3 \<and>
   map offset (children task10 10 4) = [0, 4, 8] \<and>
   map len (children task10 10 4) = [4, 4, 2] \<and>
   sum_list (map len (children task10 10 4)) = 10 \<and>
   EnqueueTensor root_node ctx10 (Some tensor10) None None ''grad'' 0 0 0 7 [REDUCE] world0 =
     Some (Inr OK, add_tasks REDUCE (keyed [20, 21, 22] (children task10 10 4)) world0)"
proof -
  have B: "GetPartitionBound root_node = 4"
    by (simp add: root_node_def)
  have h1: "counter_ptr task10 \<noteq> None"
    by (simp add: task10_def parent_task_def)
  have h2: "entry_size task10 = Inr 10"
    by (simp add: task10_def entry_size_parent_task tensor10_def)
  have h3: "\<not> sizes_differ (Some tensor10) None"
    by (simp add: sizes_differ_def)
  have h4: "entry_size (parent_task ctx10 (Some tensor10) None None ''grad'' 0 0 0 7 [REDUCE])
      = Inr 10"
    by (simp add: entry_size_parent_task tensor10_def)
  note h = h1 h2 h3 h4
  have k: "length (key_list ctx10) = 3"
    by (simp add: ctx10_def)
  have c: "nat \<lceil>real_of_int 10 / real_of_int 4\<rceil> = 3"
    using partition_count_10_4 by (simp add: partition_count_def)
  have o: "map offset (children task10 10 4) = [0, 4, 8]"
    by (simp add: map_offset_children partition_count_10_4 upt_3)
  have l: "map len (children task10 10 4) = [4, 4, 2]"
    by (simp add: map_len_children partition_count_10_4 upt_3)
  from PartitionTensor_partitions [of 10 root_node task10 "Some tensor10" None ctx10 None
      "''grad''" 0 0 0 7 "[REDUCE]" world0, unfolded B, OF _ _ _ h]
  show ?thesis
    unfolding c k o l by (simp add: task10_def ctx10_def)
qed

text \<open>
  For a bound above 0 and a buffer length with \<open>buff_len + bound - 1 < 2^32\<close>, the smaller
  of the two below \<open>2^31\<close>, \<^verbatim>\<open>InitTensor\<close> fails with \<open>InvariantViolation\<close>, before any
  push, unless the key list is not empty and has \<open>\<lceil>buff_len / bound\<rceil>\<close> keys; otherwise it
  takes the buffer and, on a distributed root device, goes through the partitions in
  order, with one blocking push of the partition under \<open>key_list[i]\<close> and the command of
  \<open>kDefaultPushPull\<close> and the dtype when the worker id is 0, and one barrier after each
  partition whatever the worker id; on any other node it sends nothing. At the end
  \<open>initialized\<close> is true. Scenario 6 of the spec (a length of 9 under a bound of 4) is the
  instance: three pushes, three barriers.
\<close>

lemma InitTensor_protocol:
  assumes "0 < GetPartitionBound g" and "0 \<le> buff_len ctx"
    and "min (GetPartitionBound g) (buff_len ctx) < 2 ^ 31"
    and "buff_len ctx + GetPartitionBound g - 1 < 2 ^ 32"
  shows
   "InitTensor g ctx name dtype cpubuff' w =
      (if 0 < length (key_list ctx) \<and>
          length (key_list ctx) =
            nat \<lceil>real_of_int (buff_len ctx) / real_of_int (GetPartitionBound g)\<rceil>
       then case acquire_buffer g ctx cpubuff' of
              Inl f \<Rightarrow> Some (Inl f, w)
            | Inr ctx' \<Rightarrow>
                Some (Inr (ctx'\<lparr>initialized := True\<rparr>),
                      ps_calls (concat (map (init_events g (key_list ctx) (buff_len ctx)
                          (GetPartitionBound g) dtype (BPSContext.cpubuff ctx'))
                        [0..<length (key_list ctx)])) w)
       else Some (Inl InvariantViolation, w)) \<and>
    length (filter (\<lambda>e. e = Barrier)
      (concat (map (init_events g (key_list ctx) (buff_len ctx) (GetPartitionBound g) dtype data)
        [0..<length (key_list ctx)]))) =
      (if IsDistributed g \<and> IsRootDevice g then length (key_list ctx) else 0) \<and>
    length (filter (\<lambda>e. e \<noteq> Barrier)
      (concat (map (init_events g (key_list ctx) (buff_len ctx) (GetPartitionBound g) dtype data)
        [0..<length (key_list ctx)]))) =
      (if IsDistributed g \<and> IsRootDevice g \<and> GetWorkerID g = 0
       then length (key_list ctx) else 0)"
  using InitTensor_in_range [OF assms, of name dtype cpubuff' w]
  by (auto simp: count_init_events partition_count_def)

lemma InitTensor_protocol_example:
  "InitTensor root_node ctx9 ''weight'' 0 (Some 100) world0 =
     Some (Inr ctx9_done, ps_calls init_log9 world0) \<and>
   length (filter (\<lambda>e. e = Barrier) init_log9) = 3 \<and>
   length (filter (\<lambda>e. e \<noteq> Barrier) init_log9) = 3"
proof -
  have B: "GetPartitionBound root_node = 4" and S: "buff_len ctx9 = 9"
    and k: "key_list ctx9 = [30, 31, 32]"
    by (simp_all add: root_node_def ctx9_def)
  have c: "nat \<lceil>real_of_int 9 / real_of_int 4\<rceil> = 3"
    using partition_count_9_4 by (simp add: partition_count_def)
  have a: "acquire_buffer root_node ctx9 (Some 100) = Inr (ctx9_done\<lparr>initialized := False\<rparr>)"
    by (simp add: acquire_buffer_def ctx9_def ctx9_done_def)
  have d: "ctx9_done\<lparr>initialized := True\<rparr> = ctx9_done"
    by (simp add: ctx9_done_def)
  from InitTensor_protocol [of root_node ctx9 "''weight''" 0 "Some 100" world0 "Some 100"]
  show ?thesis
    unfolding B S k c a
    by (simp add: d ctx9_done_def init_events_def root_node_def init_log9_def)
qed

section \<open>A call of InitTensor, replayed\<close>

text \<open>
  \<^verbatim>\<open>InitTensor\<close> never reads \<open>initialized\<close>. What its loop sends does not depend on the
  log it is appended to: a run of the loop that returns, run again from the same
  \<open>accumulated\<close> and \<open>i\<close> on any other log, returns the same result and appends the same
  calls; when it ends without failure, on a distributed root device it has sent one
  barrier for every turn and, on worker 0, one push for every turn.
\<close>

lemma InitTensor_ignores_initialized:
  "InitTensor g (ctx\<lparr>initialized := b\<rparr>) name dtype cpubuff' w =
   InitTensor g ctx name dtype cpubuff' w"
  by (simp add: InitTensor_def acquire_buffer_def Let_def
      split: sum.splits option.splits prod.splits)







section \<open>The claims\<close>

text \<open>
  C1. For a device other than \<^verbatim>\<open>CPU_DEVICE_ID\<close> and any values of the four role
  flags, \<^verbatim>\<open>GetPushQueueList\<close> returns the list of the spec's push table: REDUCE on
  the signal root, else COORDINATE_REDUCE then REDUCE; then COPYD2H if distributed or
  cross-PCIe-switch; then PCIE_REDUCE if cross-PCIe-switch; then, if distributed, PUSH
  on the root device and COORDINATE_PUSH elsewhere.
\<close>

theorem GetPushQueueList_table:
  "dev \<noteq> CPU_DEVICE_ID \<Longrightarrow>
   GetPushQueueList g dev =
     push_table (IsDistributed g) (IsRootDevice g) (IsCrossPcieSwitch g) (IsSignalRoot g)"
  by (simp add: GetPushQueueList_def push_table_def)

theorem GetPushQueueList_table_witness:
  "(0::int) \<noteq> CPU_DEVICE_ID \<and> GetPushQueueList root_node 0 = [REDUCE, COPYD2H, PUSH]"
  using GetPushQueueList_table [of 0 root_node]
  by (simp add: CPU_DEVICE_ID_def push_table_def root_node_def)

text \<open>
  C2. For a device other than \<^verbatim>\<open>CPU_DEVICE_ID\<close> and any values of the four role
  flags, \<^verbatim>\<open>GetPullQueueList\<close> returns the list of the spec's pull table: PULL if
  distributed and root device; then COPYH2D if distributed or cross-PCIe-switch; then
  BROADCAST on the signal root, else COORDINATE_BROADCAST then BROADCAST.
\<close>

theorem GetPullQueueList_table:
  "dev \<noteq> CPU_DEVICE_ID \<Longrightarrow>
   GetPullQueueList g dev =
     pull_table (IsDistributed g) (IsRootDevice g) (IsCrossPcieSwitch g) (IsSignalRoot g)"
  by (simp add: GetPullQueueList_def pull_table_def)

theorem GetPullQueueList_table_witness:
  "(0::int) \<noteq> CPU_DEVICE_ID \<and> GetPullQueueList root_node 0 = [PULL, COPYH2D, BROADCAST]"
  using GetPullQueueList_table [of 0 root_node]
  by (simp add: CPU_DEVICE_ID_def pull_table_def root_node_def)

text \<open>
  C3. The partitions are those of the claim for a size below \<open>2^31\<close>, as shown above, and
  not for every size: \<^verbatim>\<open>auto accumulated = 0\<close> declares an \<^verbatim>\<open>int\<close>. For a tensor of 3 GiB
  under a bound of 1 GiB, where the claim has three children, \<open>accumulated\<close> goes from 0
  to \<open>2^30\<close>, then wraps to \<open>- 2^31\<close>; from there it is never as large as the size, the loop
  does not end, and neither \<^verbatim>\<open>PartitionTensor\<close> nor \<^verbatim>\<open>EnqueueTensor\<close> returns.
  \<^verbatim>\<open>InitTensor\<close>, whose accumulator is a \<^verbatim>\<open>size_t\<close>, goes through the three partitions of a
  buffer of the same length under the same bound.
\<close>

theorem PartitionTensor_3GiB_diverges:
  "entry_size task_3GiB = Inr (3 * 2 ^ 30) \<and> counter_ptr task_3GiB \<noteq> None \<and>
   GetPartitionBound big_node = 2 ^ 30 \<and>
   nat \<lceil>real_of_int (3 * 2 ^ 30) / real_of_int (2 ^ 30)\<rceil> = 3 \<and>
   length (key_list ctx_3GiB) = 3 \<and>
   PartitionTensor big_node task_3GiB [] = None \<and>
   EnqueueTensor big_node ctx_3GiB (Some tensor_3GiB) None None ''grad'' 0 0 0 7 [REDUCE] world0 =
     None \<and>
   InitTensor big_node ctx_3GiB ''grad'' 0 (Some 100) world0 =
     Some (Inr (ctx_3GiB\<lparr>BPSContext.cpubuff := Some 100, reuse_buff := True,
                  initialized := True\<rparr>), world0)"
proof -
  have 1: "entry_size task_3GiB = Inr (3 * 2 ^ 30)"
    by (simp add: task_3GiB_def entry_size_parent_task tensor_3GiB_def)
  have 2: "counter_ptr task_3GiB \<noteq> None"
    by (simp add: task_3GiB_def parent_task_def)
  have 3: "GetPartitionBound big_node = 2 ^ 30"
    by (simp add: big_node_def)
  have 4: "nat \<lceil>real_of_int (3 * 2 ^ 30) / real_of_int (2 ^ 30)\<rceil> = 3"
    using ceiling_round_up [of "2 ^ 30" "3 * 2 ^ 30"] by simp
  have 5: "length (key_list ctx_3GiB) = 3"
    by (simp add: ctx_3GiB_def)
  have "PartitionTensor_loop task_3GiB (3 * 2 ^ 30) (2 ^ 30) 0 0 [] = None"
    by (rule PartitionTensor_loop_diverges) simp
  then have 6: "PartitionTensor big_node task_3GiB [] = None"
    using 1 2 unfolding PartitionTensor_def 3 by simp
  have 7: "EnqueueTensor big_node ctx_3GiB (Some tensor_3GiB) None None ''grad'' 0 0 0 7 [REDUCE]
      world0 = None"
    using 6 by (simp add: EnqueueTensor_def sizes_differ_def task_3GiB_def)
  have "partition_count (3 * 2 ^ 30) (2 ^ 30) = 3"
    using 4 by (simp add: partition_count_def)
  then have 8: "InitTensor big_node ctx_3GiB ''grad'' 0 (Some 100) world0 =
     Some (Inr (ctx_3GiB\<lparr>BPSContext.cpubuff := Some 100, reuse_buff := True,
                  initialized := True\<rparr>), world0)"
    using InitTensor_in_range [of big_node ctx_3GiB "''grad''" 0 "Some 100" world0]
    by (simp add: big_node_def ctx_3GiB_def acquire_buffer_def init_events_def)
  from 1 2 3 4 5 6 7 8 show ?thesis
    by blast
qed




text \<open>
  C5, for a call that passes the checks. For \<^verbatim>\<open>CPU_DEVICE_ID\<close> both builders return the
  empty list. \<^verbatim>\<open>EnqueueTensor\<close>, called with that list, first compares the sizes of input
  and output and partitions the tensor; when the sizes do not differ and the partitions
  are as many as the keys of the context, it invokes the callback with OK, once and
  before it returns, returns OK, and adds no task to any queue.
\<close>

theorem CPU_short_circuit:
  assumes "\<not> sizes_differ input' out"
    and "PartitionTensor g (parent_task ctx input' out re name CPU_DEVICE_ID prio ver cb []) []
           = Some (Inr ps)"
    and "length ps = length (key_list ctx)"
  shows
   "GetPushQueueList g CPU_DEVICE_ID = [] \<and> GetPullQueueList g CPU_DEVICE_ID = [] \<and>
    EnqueueTensor g ctx input' out re name CPU_DEVICE_ID prio ver cb
        (GetPushQueueList g CPU_DEVICE_ID) w = Some (Inr OK, invoke cb OK w) \<and>
    EnqueueTensor g ctx input' out re name CPU_DEVICE_ID prio ver cb
        (GetPullQueueList g CPU_DEVICE_ID) w = Some (Inr OK, invoke cb OK w) \<and>
    queues (invoke cb OK w) = queues w \<and>
    callbacks (invoke cb OK w) = callbacks w @ [(cb, OK)]"
  using assms EnqueueTensor_cases [OF assms(1), of g ctx re name CPU_DEVICE_ID prio ver cb "[]" w]
  by simp

theorem CPU_short_circuit_witness:
  "GetPushQueueList root_node CPU_DEVICE_ID = [] \<and>
   EnqueueTensor root_node ctx10 (Some tensor10) None None ''grad'' CPU_DEVICE_ID 0 0 7
       (GetPushQueueList root_node CPU_DEVICE_ID) world0 = Some (Inr OK, invoke 7 OK world0) \<and>
   queues (invoke 7 OK world0) = queues world0 \<and>
   callbacks (invoke 7 OK world0) = [(7, OK)]"
proof -
  have 1: "\<not> sizes_differ (Some tensor10) None"
    by (simp add: sizes_differ_def)
  have 3: "length (children (parent_task ctx10 (Some tensor10) None None ''grad'' CPU_DEVICE_ID
      0 0 7 []) 10 4) = length (key_list ctx10)"
    by (simp add: partition_count_10_4 ctx10_def)
  from CPU_short_circuit [OF 1 PartitionTensor_10 3, of world0] show ?thesis
    by (simp add: world0_def)
qed

text \<open>
  Without that condition the claim fails: for a CPU tensor of 10 bytes under a bound of
  4, on a context that holds one key and not three, the call ends in the check of the
  partition count, and the callback is not invoked.
\<close>

theorem CPU_enqueue_key_count_mismatch:
  "GetPushQueueList root_node CPU_DEVICE_ID = [] \<and>
   EnqueueTensor root_node ctx_one_key (Some tensor10) None None ''grad'' CPU_DEVICE_ID 0 0 7
       (GetPushQueueList root_node CPU_DEVICE_ID) world0 = Some (Inl InvariantViolation, world0)"
proof -
  have 1: "\<not> sizes_differ (Some tensor10) None"
    by (simp add: sizes_differ_def)
  from EnqueueTensor_cases [OF 1, of root_node ctx_one_key None "''grad''" CPU_DEVICE_ID 0 0 7
      "[]" world0]
  show ?thesis
    by (simp add: PartitionTensor_10 partition_count_10_4 ctx_one_key_def)
qed

text \<open>
  C6. In a call of \<^verbatim>\<open>EnqueueTensor\<close> with a queue list that is not empty, once the tensor
  is partitioned, what is added to the queue of the head stage is the list of the
  partitions, in order, the partition of index \<open>i\<close> with its key set to \<open>key_list[i]\<close>
  (and nothing is added by a call that fails the check of the sizes or of the partition
  count); the partitions as \<^verbatim>\<open>PartitionTensor\<close> returns them, for any parent, carry no
  key.
\<close>

theorem EnqueueTensor_assigns_keys:
  assumes "ql \<noteq> []"
    and "PartitionTensor g (parent_task ctx input' out re name dev prio ver cb ql) []
           = Some (Inr ps)"
  shows
   "(\<forall>p \<in> set ps. key p = None) \<and>
    (PartitionTensor g entry [] = Some (Inr ps') \<longrightarrow> (\<forall>p \<in> set ps'. key p = None)) \<and>
    (\<exists>r. EnqueueTensor g ctx input' out re name dev prio ver cb ql w =
            Some (r, if \<not> sizes_differ input' out \<and> length (key_list ctx) = length ps
                     then add_tasks (ql ! 0) (keyed (key_list ctx) ps) w
                     else w)) \<and>
    queues (add_tasks (ql ! 0) (keyed (key_list ctx) ps) w) (ql ! 0) =
      queues w (ql ! 0) @ keyed (key_list ctx) ps \<and>
    length (keyed (key_list ctx) ps) = length ps \<and>
    (\<forall>i < length ps. keyed (key_list ctx) ps ! i = (ps ! i)\<lparr>key := Some (key_list ctx ! i)\<rparr>)"
proof -
  have 1: "\<forall>p \<in> set ps. key p = None"
    using PartitionTensor_keys [OF assms(2)] .
  have 2: "PartitionTensor g entry [] = Some (Inr ps') \<longrightarrow> (\<forall>p \<in> set ps'. key p = None)"
    using PartitionTensor_keys [of g entry ps'] by blast
  have 3: "\<exists>r. EnqueueTensor g ctx input' out re name dev prio ver cb ql w =
            Some (r, if \<not> sizes_differ input' out \<and> length (key_list ctx) = length ps
                     then add_tasks (ql ! 0) (keyed (key_list ctx) ps) w
                     else w)"
  proof (cases "sizes_differ input' out")
    case True
    then show ?thesis
      by (simp add: EnqueueTensor_def)
  next
    case False
    from EnqueueTensor_cases [OF this, of g ctx re name dev prio ver cb ql w] assms
    show ?thesis
      using False by simp
  qed
  from 1 2 3 show ?thesis
    by simp
qed

theorem EnqueueTensor_assigns_keys_witness:
  "(\<exists>r. EnqueueTensor root_node ctx10 (Some tensor10) None None ''grad'' 0 0 0 7 [REDUCE] world0 =
          Some (r, add_tasks REDUCE (keyed [20, 21, 22] (children task10 10 4)) world0)) \<and>
   queues (add_tasks REDUCE (keyed [20, 21, 22] (children task10 10 4)) world0) REDUCE =
     keyed [20, 21, 22] (children task10 10 4) \<and>
   map key (keyed [20, 21, 22] (children task10 10 4)) = [Some 20, Some 21, Some 22]"
proof -
  have 1: "\<not> sizes_differ (Some tensor10) None"
    by (simp add: sizes_differ_def)
  have k: "key_list ctx10 = [20, 21, 22]"
    by (simp add: ctx10_def)
  have m: "map key (keyed [20, 21, 22] (children task10 10 4)) = [Some 20, Some 21, Some 22]"
    by (simp add: map_key_keyed partition_count_10_4)
  from EnqueueTensor_assigns_keys [OF _ PartitionTensor_10, where w = world0 and ql = "[REDUCE]"
      and ctx = ctx10]
  show ?thesis
    unfolding k m using 1 by (simp add: task10_def world0_def partition_count_10_4)
qed

text \<open>
  C7. A call of \<^verbatim>\<open>EnqueueTensor\<close> whose input and output are both present with different
  byte sizes fails with \<open>InvariantViolation\<close> at once: the queues and the callback log are
  as before the call, whatever the other arguments.
\<close>

theorem EnqueueTensor_size_mismatch:
  "tensor_size t \<noteq> tensor_size t' \<Longrightarrow>
   EnqueueTensor g ctx (Some t) (Some t') re name dev prio ver cb ql w =
     Some (Inl InvariantViolation, w)"
  by (simp add: EnqueueTensor_def sizes_differ_def)

theorem EnqueueTensor_size_mismatch_witness:
  "tensor_size tensor10 \<noteq> tensor_size tensor12 \<and>
   EnqueueTensor root_node ctx10 (Some tensor10) (Some tensor12) None ''grad'' 0 0 0 7 [REDUCE]
     world0 = Some (Inl InvariantViolation, world0)"
  using EnqueueTensor_size_mismatch [of tensor10 tensor12 root_node ctx10 None "''grad''" 0 0 0 7
      "[REDUCE]" world0]
  by (simp add: tensor10_def tensor12_def)

text \<open>
  C8. The check and the protocol are those of the claim for the lengths shown above
  (scenario 6 among them), and not for every call: the cast in
  \<^verbatim>\<open>(unsigned int) (size+bound-1)/bound\<close>, commented \<^verbatim>\<open>// round up\<close>, cuts the sum to 32
  bits before the division. For a buffer of 4 GiB under a bound of 4096000 bytes the sum
  is cut to 4095999 and the quotient is 0, so a context with the 1049 keys of the
  rounded-up quotient fails the check, with nothing pushed.
\<close>

theorem InitTensor_4GiB_fails:
  "0 < length (key_list ctx_4GiB) \<and>
   length (key_list ctx_4GiB) =
     nat \<lceil>real_of_int (buff_len ctx_4GiB) / real_of_int (GetPartitionBound default_node)\<rceil> \<and>
   InitTensor default_node ctx_4GiB ''weight'' 0 (Some 100) world0 =
     Some (Inl InvariantViolation, world0)"
proof -
  have "nat \<lceil>real_of_int (2 ^ 32) / real_of_int 4096000\<rceil> = 1049"
    by (simp only: ceiling_round_up) simp
  then show ?thesis
    by (simp add: ctx_4GiB_def default_node_def InitTensor_def wrap_uint32_def wrap_size_t_def)
qed




text \<open>
  C10. For a device other than \<^verbatim>\<open>CPU_DEVICE_ID\<close> and any values of the four role
  flags, the push list is not empty and contains REDUCE, and the pull list is not empty
  and ends with BROADCAST; so a list of these builders is empty only for the CPU
  device.
\<close>

theorem queue_lists_nonempty:
  "dev \<noteq> CPU_DEVICE_ID \<Longrightarrow>
   GetPushQueueList g dev \<noteq> [] \<and> REDUCE \<in> set (GetPushQueueList g dev) \<and>
   GetPullQueueList g dev \<noteq> [] \<and> last (GetPullQueueList g dev) = BROADCAST \<and>
   (\<forall>d. GetPushQueueList g d = [] \<longleftrightarrow> d = CPU_DEVICE_ID) \<and>
   (\<forall>d. GetPullQueueList g d = [] \<longleftrightarrow> d = CPU_DEVICE_ID)"
  by (auto simp add: GetPushQueueList_def GetPullQueueList_def Let_def)

theorem queue_lists_nonempty_witness:
  "(0::int) \<noteq> CPU_DEVICE_ID \<and>
   GetPushQueueList root_node 0 \<noteq> [] \<and> REDUCE \<in> set (GetPushQueueList root_node 0) \<and>
   GetPullQueueList root_node 0 \<noteq> [] \<and> last (GetPullQueueList root_node 0) = BROADCAST"
  using queue_lists_nonempty [of 0 root_node]
  by (simp add: CPU_DEVICE_ID_def)

end
